theory Spec2Isabelle
  imports Main "HOL-Library.AList"
begin

section \<open>Badminton elimination: the data model\<close>

text \<open>
  A shallow embedding of \<^verbatim>\<open>badminton_elimination.py\<close>. Python's unbounded
  integers are \<^typ>\<open>int\<close>, a \<^verbatim>\<open>dict\<close> is an association list with distinct keys in
  insertion order (\<open>AList.update\<close> overwrites in place or appends, as a dict
  assignment does), and every exception the code can raise is a value of
  \<open>py_error\<close> (\<open>SolverError\<close> for what the two solver libraries raise). A
  method that mutates \<^verbatim>\<open>self\<close> returns the new object beside its
  result, also when it raises.
\<close>

datatype py_error = KeyError | ValueError | IndexError | SolverError

text \<open>
  \<^verbatim>\<open>class Team\<close>. The only constructor call, in \<^verbatim>\<open>readDivision\<close>, passes
  \<^verbatim>\<open>list(map(int, teaminfo[4:]))\<close> for \<^verbatim>\<open>against\<close>, so the field is a list of
  integers indexed by opponent id.
\<close>

record team =
  ID :: int
  name :: string
  wins :: int
  losses :: int
  remaining :: int
  against :: "int list"

text \<open>
  Python's list subscript: a negative index counts from the end, anything out
  of range raises \<^verbatim>\<open>IndexError\<close>.
\<close>

definition py_index :: "'a list \<Rightarrow> int \<Rightarrow> py_error + 'a" where
  "py_index xs i =
     (if 0 \<le> i \<and> i < int (length xs) then Inr (xs ! nat i)
      else if i < 0 \<and> - int (length xs) \<le> i then Inr (xs ! nat (int (length xs) + i))
      else Inl IndexError)"

text \<open>
  \<^verbatim>\<open>Team.get_against(self, other_team=None)\<close>: the subscript sits in a bare
  \<^verbatim>\<open>try/except\<close> that turns every exception into \<^verbatim>\<open>ValueError\<close>. The default
  argument \<^verbatim>\<open>None\<close> is no list index (\<^verbatim>\<open>TypeError\<close>, caught as well).
\<close>

definition get_against :: "team \<Rightarrow> int option \<Rightarrow> py_error + int" where
  "get_against self other_team =
     (case other_team of
        None \<Rightarrow> Inl ValueError
      | Some j \<Rightarrow> (case py_index (against self) j of
                    Inl _ \<Rightarrow> Inl ValueError
                  | Inr num_games \<Rightarrow> Inr num_games))"

text \<open>
  The \<^verbatim>\<open>networkx.DiGraph\<close> held in \<^verbatim>\<open>self.G\<close>. Its nodes are the strings
  \<^verbatim>\<open>"Source"\<close>, \<^verbatim>\<open>"Sink"\<close> and the matchup names, and the integer team ids; the
  only edge attribute the code uses is \<^verbatim>\<open>capacity\<close>.
\<close>

datatype node = Str string | Num int

record digraph =
  nodes :: "node list"
  edges :: "((node \<times> node) \<times> int) list"

definition empty_graph :: digraph where
  "empty_graph = \<lparr>nodes = [], edges = []\<rparr>"

definition add_node :: "node \<Rightarrow> digraph \<Rightarrow> digraph" where
  "add_node n g = (if n \<in> set (nodes g) then g else g\<lparr>nodes := nodes g @ [n]\<rparr>)"

text \<open>
  \<^verbatim>\<open>add_edge(u, v, capacity=c)\<close> adds both end points when they are new and
  sets the attribute of the edge, overwriting an earlier one.
\<close>

definition add_edge :: "node \<Rightarrow> node \<Rightarrow> int \<Rightarrow> digraph \<Rightarrow> digraph" where
  "add_edge u v c g =
     (let g' = add_node v (add_node u g)
      in g'\<lparr>edges := AList.update (u, v) c (edges g')\<rparr>)"

text \<open>\<^verbatim>\<open>class Division\<close>: the roster \<^verbatim>\<open>self.teams\<close> and the network \<^verbatim>\<open>self.G\<close>.\<close>

record division =
  teams :: "(int \<times> team) list"
  G :: digraph

section \<open>Loading the roster\<close>

text \<open>
  \<^verbatim>\<open>readDivision\<close> reads the file, splits every line at white space and drops
  the first line. The model starts from the split lines. The builtin \<^verbatim>\<open>int\<close>
  on a string is a parameter \<open>py_int\<close> (\<open>None\<close> where it raises
  \<^verbatim>\<open>ValueError\<close>).
\<close>

definition token :: "string list \<Rightarrow> nat \<Rightarrow> py_error + string" where
  "token teaminfo k = (if k < length teaminfo then Inr (teaminfo ! k) else Inl IndexError)"

definition int_token :: "(string \<Rightarrow> int option) \<Rightarrow> string list \<Rightarrow> nat \<Rightarrow> py_error + int" where
  "int_token py_int teaminfo k =
     (case token teaminfo k of
        Inl e \<Rightarrow> Inl e
      | Inr s \<Rightarrow> (case py_int s of None \<Rightarrow> Inl ValueError | Some v \<Rightarrow> Inr v))"

fun int_tokens :: "(string \<Rightarrow> int option) \<Rightarrow> string list \<Rightarrow> py_error + int list" where
  "int_tokens py_int [] = Inr []"
| "int_tokens py_int (s # ss) =
     (case py_int s of
        None \<Rightarrow> Inl ValueError
      | Some v \<Rightarrow> (case int_tokens py_int ss of Inl e \<Rightarrow> Inl e | Inr vs \<Rightarrow> Inr (v # vs)))"

text \<open>
  The arguments of \<^verbatim>\<open>Team(int(ID), teaminfo[0], int(teaminfo[1]), ...)\<close> are
  evaluated from left to right; the first one that raises decides the error.
\<close>

definition make_team :: "(string \<Rightarrow> int option) \<Rightarrow> int \<Rightarrow> string list \<Rightarrow> py_error + team" where
  "make_team py_int i teaminfo =
     (case token teaminfo 0 of Inl e \<Rightarrow> Inl e | Inr nm \<Rightarrow>
     (case int_token py_int teaminfo 1 of Inl e \<Rightarrow> Inl e | Inr w \<Rightarrow>
     (case int_token py_int teaminfo 2 of Inl e \<Rightarrow> Inl e | Inr l \<Rightarrow>
     (case int_token py_int teaminfo 3 of Inl e \<Rightarrow> Inl e | Inr r \<Rightarrow>
     (case int_tokens py_int (drop 4 teaminfo) of Inl e \<Rightarrow> Inl e | Inr a \<Rightarrow>
        Inr \<lparr>ID = i, name = nm, wins = w, losses = l, remaining = r, against = a\<rparr>)))))"

text \<open>
  The loop \<^verbatim>\<open>for ID, teaminfo in enumerate(lines)\<close>, with the running index of
  \<^verbatim>\<open>enumerate\<close> as an argument. An exception leaves the teams stored so far.
\<close>

fun read_rows ::
  "(string \<Rightarrow> int option) \<Rightarrow> int \<Rightarrow> string list list \<Rightarrow> division \<Rightarrow> py_error option \<times> division"
where
  "read_rows py_int i [] self = (None, self)"
| "read_rows py_int i (teaminfo # rest) self =
     (case make_team py_int i teaminfo of
        Inl e \<Rightarrow> (Some e, self)
      | Inr t \<Rightarrow> read_rows py_int (i + 1) rest (self\<lparr>teams := AList.update i t (teams self)\<rparr>))"

definition readDivision ::
  "(string \<Rightarrow> int option) \<Rightarrow> string list list \<Rightarrow> division \<Rightarrow> py_error option \<times> division"
where
  "readDivision py_int lines self = read_rows py_int 0 (drop 1 lines) self"

text \<open>
  \<^verbatim>\<open>Division.__init__\<close>: an exception of \<^verbatim>\<open>readDivision\<close> leaves no object
  behind.
\<close>

definition Division :: "(string \<Rightarrow> int option) \<Rightarrow> string list list \<Rightarrow> py_error + division" where
  "Division py_int lines =
     (case readDivision py_int lines \<lparr>teams = [], G = empty_graph\<rparr> of
        (Some e, _) \<Rightarrow> Inl e
      | (None, self) \<Rightarrow> Inr self)"

definition get_team_IDs :: "division \<Rightarrow> int list" where
  "get_team_IDs self = map fst (teams self)"

definition checkTeam :: "division \<Rightarrow> team \<Rightarrow> py_error + unit" where
  "checkTeam self t = (if ID t \<notin> set (get_team_IDs self) then Inl ValueError else Inr ())"

section \<open>Building the network\<close>

text \<open>
  Python's \<^verbatim>\<open>str\<close> on an integer: the decimal digits, after a minus sign for
  a negative number.
\<close>

definition digit_char :: "nat \<Rightarrow> char" where
  "digit_char d = ''0123456789'' ! d"

function str_nat :: "nat \<Rightarrow> string" where
  "str_nat n = (if n < 10 then [digit_char n] else str_nat (n div 10) @ [digit_char (n mod 10)])"
  by pat_completeness auto
termination
  by (relation "measure id") auto

declare str_nat.simps [simp del]

definition py_str :: "int \<Rightarrow> string" where
  "py_str i = (if i < 0 then CHR ''-'' # str_nat (nat (- i)) else str_nat (nat i))"

text \<open>
  A \<^verbatim>\<open>for\<close> loop whose body may raise: the first exception ends the loop and
  keeps the state reached.
\<close>

fun for_each :: "('a \<Rightarrow> 's \<Rightarrow> py_error option \<times> 's) \<Rightarrow> 'a list \<Rightarrow> 's \<Rightarrow> py_error option \<times> 's" where
  "for_each body [] s = (None, s)"
| "for_each body (x # xs) s =
     (case body x s of
        (Some e, s') \<Rightarrow> (Some e, s')
      | (None, s') \<Rightarrow> for_each body xs s')"

text \<open>
  The identity test \<^verbatim>\<open>a is b\<close> on two integers. Identical objects are equal.
  Whether two equal integers are one object is a matter of the caller: the
  flag \<open>same_object\<close> says that the \<^verbatim>\<open>teamID\<close> passed to a method is the
  very object that the roster holds as the key equal to it (as in
  \<^verbatim>\<open>division.is_eliminated(team.ID, ...)\<close> of the main program). CPython keeps
  one object for each integer from \<open>-5\<close> to \<open>256\<close>, so for these equal means
  identical whatever the caller does.
\<close>

definition py_is :: "bool \<Rightarrow> int \<Rightarrow> int \<Rightarrow> bool" where
  "py_is same_object a b = (a = b \<and> (same_object \<or> (- 5 \<le> a \<and> a \<le> 256)))"

text \<open>
  The body of \<^verbatim>\<open>for team in teamIDs\<close> (lines 103 to 107), with the identity
  test \<^verbatim>\<open>team is not teamID\<close> of line 104: a key that equals \<^verbatim>\<open>teamID\<close>
  without being the same object gets a node and an edge into the sink as
  every other team does.
\<close>

definition sink_body ::
  "bool \<Rightarrow> division \<Rightarrow> int \<Rightarrow> int \<Rightarrow> digraph \<Rightarrow> py_error option \<times> digraph"
where
  "sink_body same_object self teamID t g =
     (if \<not> py_is same_object t teamID then
        (let g1 = add_node (Num t) g
         in case map_of (teams self) teamID of
              None \<Rightarrow> (Some KeyError, g1)
            | Some q \<Rightarrow>
                (case map_of (teams self) t of
                   None \<Rightarrow> (Some KeyError, g1)
                 | Some other \<Rightarrow>
                     (None, add_edge (Num t) (Str ''Sink'') (wins q + remaining q - wins other) g1)))
      else (None, g))"

definition node_name :: "int \<Rightarrow> int \<Rightarrow> string" where
  "node_name a b = py_str a @ ''_'' @ py_str b"

text \<open>
  The body of the inner loop (lines 112 to 120). The skip test compares with
  \<^verbatim>\<open>==\<close>. It and the roster
  lookup \<^verbatim>\<open>self.teams[i].get_against(j)\<close> use the positions \<open>i\<close> and \<open>j\<close>;
  the node names and the edges use \<^verbatim>\<open>teamIDs[i]\<close> and \<^verbatim>\<open>teamIDs[j]\<close>. Both
  positions are below \<^verbatim>\<open>len(teamIDs)\<close> by the ranges of the loops.
\<close>

definition matchup_body ::
  "division \<Rightarrow> int \<Rightarrow> int list \<Rightarrow> nat \<Rightarrow> nat \<Rightarrow> digraph \<times> (string \<times> int) list
     \<Rightarrow> py_error option \<times> (digraph \<times> (string \<times> int) list)"
where
  "matchup_body self teamID teamIDs i j st =
     (if int i = teamID \<or> int j = teamID then (None, st)
      else
        (let nm = node_name (teamIDs ! i) (teamIDs ! j)
         in case map_of (teams self) (int i) of
              None \<Rightarrow> (Some KeyError, st)
            | Some t \<Rightarrow>
                (case get_against t (Some (int j)) of
                   Inl e \<Rightarrow> (Some e, st)
                 | Inr matchup_games \<Rightarrow>
                     (None,
                      (add_edge (Str nm) (Num (teamIDs ! j)) matchup_games
                        (add_edge (Str nm) (Num (teamIDs ! i)) matchup_games
                          (add_edge (Str ''Source'') (Str nm) matchup_games
                            (add_node (Str nm) (fst st)))),
                       AList.update nm matchup_games (snd st))))))"

text \<open>
  \<^verbatim>\<open>create_network\<close> replaces \<^verbatim>\<open>self.G\<close> and returns the dict
  \<^verbatim>\<open>saturated_edges\<close>. When a lookup raises, \<^verbatim>\<open>self.G\<close> keeps the part built
  so far.
\<close>

definition create_network ::
  "bool \<Rightarrow> division \<Rightarrow> int \<Rightarrow> (py_error + (string \<times> int) list) \<times> division"
where
  "create_network same_object self teamID =
     (let g0 = add_node (Str ''Sink'') (add_node (Str ''Source'') empty_graph);
          teamIDs = get_team_IDs self;
          n = length teamIDs
      in case for_each (sink_body same_object self teamID) teamIDs g0 of
           (Some e, g1) \<Rightarrow> (Inl e, self\<lparr>G := g1\<rparr>)
         | (None, g1) \<Rightarrow>
             (case for_each (\<lambda>i. for_each (matchup_body self teamID teamIDs i) [i + 1..<n])
                     [0..<n - 1] (g1, []) of
                (Some e, st) \<Rightarrow> (Inl e, self\<lparr>G := fst st\<rparr>)
              | (None, st) \<Rightarrow> (Inr (snd st), self\<lparr>G := fst st\<rparr>)))"

section \<open>The two solvers and the query\<close>

text \<open>
  The loop \<^verbatim>\<open>for matchup in saturated_edges.keys(): comparing_value +=
  saturated_edges[matchup]\<close>.
\<close>

fun sum_values :: "(string \<times> int) list \<Rightarrow> string list \<Rightarrow> int \<Rightarrow> py_error + int" where
  "sum_values saturated_edges [] comparing_value = Inr comparing_value"
| "sum_values saturated_edges (matchup # ks) comparing_value =
     (case map_of saturated_edges matchup of
        None \<Rightarrow> Inl KeyError
      | Some v \<Rightarrow> sum_values saturated_edges ks (comparing_value + v))"

text \<open>
  \<^verbatim>\<open>network_flows\<close>. The library call
  \<^verbatim>\<open>nx.algorithms.flow.maximum_flow(self.G, "Source", "Sink", ...)\<close> is the
  parameter \<open>maximum_flow\<close>: the flow value it returns for a graph, or the
  exception it raises.
\<close>

definition network_flows ::
  "(digraph \<Rightarrow> py_error + int) \<Rightarrow> division \<Rightarrow> (string \<times> int) list \<Rightarrow> py_error + bool"
where
  "network_flows maximum_flow self saturated_edges =
     (case maximum_flow (G self) of
        Inl e \<Rightarrow> Inl e
      | Inr max_flow \<Rightarrow>
          (case sum_values saturated_edges (map fst saturated_edges) 0 of
             Inl e \<Rightarrow> Inl e
           | Inr comparing_value \<Rightarrow> Inr (comparing_value > max_flow)))"

text \<open>
  \<^verbatim>\<open>linear_programming\<close>. The linear program is set up from the edges of
  \<^verbatim>\<open>self.G\<close> and solved by \<^verbatim>\<open>picos\<close> with \<^verbatim>\<open>cvxopt\<close>; the parameter \<open>lp_flow\<close>
  is \<^verbatim>\<open>round(F)\<close> after \<^verbatim>\<open>maxflow.solve\<close> for a graph, or the exception raised
  on the way.
\<close>

definition linear_programming ::
  "(digraph \<Rightarrow> py_error + int) \<Rightarrow> division \<Rightarrow> (string \<times> int) list \<Rightarrow> py_error + bool"
where
  "linear_programming lp_flow self saturated_edges =
     (case lp_flow (G self) of
        Inl e \<Rightarrow> Inl e
      | Inr F \<Rightarrow>
          (case sum_values saturated_edges (map fst saturated_edges) 0 of
             Inl e \<Rightarrow> Inl e
           | Inr comparing_value \<Rightarrow> Inr (comparing_value > F)))"

text \<open>
  The loop of \<^verbatim>\<open>is_eliminated\<close> over \<^verbatim>\<open>temp.items()\<close> (lines 72 to 74),
  started with \<^verbatim>\<open>flag1 = False\<close>.
\<close>

fun pre_check :: "team \<Rightarrow> (int \<times> team) list \<Rightarrow> bool \<Rightarrow> bool" where
  "pre_check t [] flag1 = flag1"
| "pre_check t ((k, other_team) # rest) flag1 =
     pre_check t rest (if wins t + remaining t < wins other_team then True else flag1)"

text \<open>
  \<^verbatim>\<open>is_eliminated\<close>. \<^verbatim>\<open>self.teams[teamID]\<close> raises \<^verbatim>\<open>KeyError\<close> for an
  unknown id; \<^verbatim>\<open>temp\<close> is a copy of the roster without the queried team;
  \<^verbatim>\<open>create_network\<close> is called whatever the flag is; a solver string that is
  neither of the two names leaves \<^verbatim>\<open>flag1\<close> as it is.
\<close>

definition is_eliminated ::
  "(digraph \<Rightarrow> py_error + int) \<Rightarrow> (digraph \<Rightarrow> py_error + int) \<Rightarrow> bool \<Rightarrow> division \<Rightarrow> int \<Rightarrow> string
     \<Rightarrow> (py_error + bool) \<times> division"
where
  "is_eliminated maximum_flow lp_flow same_object self teamID solver =
     (case map_of (teams self) teamID of
        None \<Rightarrow> (Inl KeyError, self)
      | Some t \<Rightarrow>
          (let temp = AList.delete teamID (teams self);
               flag1 = pre_check t temp False
           in case create_network same_object self teamID of
                (Inl e, self') \<Rightarrow> (Inl e, self')
              | (Inr saturated_edges, self') \<Rightarrow>
                  (if \<not> flag1 then
                     (if solver = ''Network Flows'' then
                        (network_flows maximum_flow self' saturated_edges, self')
                      else if solver = ''Linear Programming'' then
                        (linear_programming lp_flow self' saturated_edges, self')
                      else (Inr flag1, self'))
                   else (Inr flag1, self'))))"

section \<open>A sample roster\<close>

text \<open>
  Three teams: A has lost everything, B and C lead with five wins and still
  play each other twice. \<open>const_flow\<close> is a solver that answers with a fixed
  flow value, for running the query on the sample.
\<close>

definition const_flow :: "int \<Rightarrow> digraph \<Rightarrow> py_error + int" where
  "const_flow v g = Inr v"

definition team_A :: team where
  "team_A = \<lparr>ID = 0, name = ''A'', wins = 0, losses = 5, remaining = 0, against = [0, 0, 0]\<rparr>"

definition team_B :: team where
  "team_B = \<lparr>ID = 1, name = ''B'', wins = 5, losses = 0, remaining = 2, against = [0, 0, 2]\<rparr>"

definition team_C :: team where
  "team_C = \<lparr>ID = 2, name = ''C'', wins = 5, losses = 0, remaining = 2, against = [0, 2, 0]\<rparr>"

definition example_division :: division where
  "example_division = \<lparr>teams = [(0, team_A), (1, team_B), (2, team_C)], G = empty_graph\<rparr>"

section \<open>Properties of a network\<close>

text \<open>Every edge into \<^verbatim>\<open>"Sink"\<close> has a capacity that is not negative.\<close>

definition sink_nonneg :: "digraph \<Rightarrow> bool" where
  "sink_nonneg g = (\<forall>e \<in> set (edges g). snd (fst e) = Str ''Sink'' \<longrightarrow> 0 \<le> snd e)"

section \<open>Decimal tokens\<close>

text \<open>
  The value of a string of decimal digits, and with it one reading of the
  builtin \<^verbatim>\<open>int\<close> for the tokens of a roster file: digits only. Python
  accepts more (a sign, underscores); the loader is verified for every reading.
\<close>

definition digit_value :: "char \<Rightarrow> nat" where
  "digit_value c = (case map_of (zip ''0123456789'' [0, 1, 2, 3, 4, 5, 6, 7, 8, 9]) c of
                      Some d \<Rightarrow> d | None \<Rightarrow> 0)"

definition digits_value :: "string \<Rightarrow> nat" where
  "digits_value s = foldl (\<lambda>a c. 10 * a + digit_value c) 0 s"

definition decimal_int :: "string \<Rightarrow> int option" where
  "decimal_int s =
     (if s \<noteq> [] \<and> list_all (\<lambda>c. c \<in> set ''0123456789'') s
      then Some (int (digits_value s)) else None)"

definition sample_lines :: "string list list" where
  "sample_lines =
     [[''3''],
      [''A'', ''0'', ''5'', ''0'', ''0'', ''0'', ''0''],
      [''B'', ''5'', ''0'', ''2'', ''0'', ''0'', ''2''],
      [''C'', ''5'', ''0'', ''2'', ''0'', ''2'', ''0'']]"

section \<open>The matchups of a roster\<close>

text \<open>
  The pairs of positions that the two nested loops of \<^verbatim>\<open>create_network\<close> run
  through, and those of them that the \<^verbatim>\<open>continue\<close> does not skip.
\<close>

definition all_pairs :: "nat \<Rightarrow> (nat \<times> nat) list" where
  "all_pairs n = concat (map (\<lambda>i. map (Pair i) [i + 1..<n]) [0..<n - 1])"

definition matchups :: "nat \<Rightarrow> int \<Rightarrow> (nat \<times> nat) list" where
  "matchups n teamID = filter (\<lambda>(i, j). int i \<noteq> teamID \<and> int j \<noteq> teamID) (all_pairs n)"

text \<open>
  The remaining games of a pair as the roster records them: the entry for \<open>j\<close>
  in the \<^verbatim>\<open>against\<close> list of the team stored at position \<open>i\<close>.
\<close>

definition games :: "division \<Rightarrow> nat \<Rightarrow> nat \<Rightarrow> int" where
  "games self i j = against (snd (teams self ! i)) ! j"

text \<open>
  The three edges of the matchup node of a pair, all with capacity \<open>c\<close>: from
  \<^verbatim>\<open>"Source"\<close> to the node and from the node to either team.
\<close>

definition matchup_edges :: "digraph \<Rightarrow> nat \<Rightarrow> nat \<Rightarrow> int \<Rightarrow> bool" where
  "matchup_edges g i j c =
     (map_of (edges g) (Str ''Source'', Str (node_name (int i) (int j))) = Some c \<and>
      map_of (edges g) (Str (node_name (int i) (int j)), Num (int i)) = Some c \<and>
      map_of (edges g) (Str (node_name (int i) (int j)), Num (int j)) = Some c)"

text \<open>What holds of the graph and the dict after the pairs \<open>ys\<close> have been visited.\<close>

definition matchup_inv ::
  "division \<Rightarrow> int \<Rightarrow> (nat \<times> nat) list \<Rightarrow> digraph \<times> (string \<times> int) list \<Rightarrow> bool"
where
  "matchup_inv self teamID ys st \<longleftrightarrow>
     snd st = map (\<lambda>(i, j). (node_name (int i) (int j), games self i j))
                (filter (\<lambda>(i, j). int i \<noteq> teamID \<and> int j \<noteq> teamID) ys) \<and>
     (\<forall>(i, j) \<in> set ys. int i \<noteq> teamID \<and> int j \<noteq> teamID \<longrightarrow>
        j < length (against (snd (teams self ! i))) \<and>
        matchup_edges (fst st) i j (games self i j))"

section \<open>Basic facts\<close>

lemma pre_check_iff:
  "pre_check t xs f \<longleftrightarrow> f \<or> (\<exists>(k, other) \<in> set xs. wins t + remaining t < wins other)"
  by (induction t xs f rule: pre_check.induct) auto

lemma set_delete: "set (AList.delete k al) = {p \<in> set al. fst p \<noteq> k}"
  by (auto simp: AList.delete_eq)

lemma teams_create_network: "teams (snd (create_network same_object self teamID)) = teams self"
  by (simp add: create_network_def Let_def split: prod.splits option.splits)

text \<open>A property kept by every run of the body is kept by the loop, also when it raises.\<close>

lemma for_each_invariant:
  assumes "for_each body xs s = (r, s')" and "P s"
    and "\<And>x a b c. x \<in> set xs \<Longrightarrow> P a \<Longrightarrow> body x a = (b, c) \<Longrightarrow> P c"
  shows "P s'"
  using assms
proof (induction xs arbitrary: s)
  case Nil
  then show ?case by simp
next
  case (Cons x xs)
  obtain b c where bc: "body x s = (b, c)" by (cases "body x s")
  have pc: "P c" using Cons.prems(3)[of x s b c] Cons.prems(2) bc by simp
  show ?case
  proof (cases b)
    case None
    then have "for_each body xs c = (r, s')" using Cons.prems(1) bc by simp
    then show ?thesis using pc Cons.prems(3) by (intro Cons.IH[of c]) auto
  next
    case (Some e)
    then have "s' = c" using Cons.prems(1) bc by simp
    then show ?thesis using pc by simp
  qed
qed

lemma is_eliminated_flagged:
  assumes "map_of (teams self) teamID = Some t"
    and "create_network same_object self teamID = (Inr se, self')"
    and "solver \<noteq> ''Network Flows'' \<and> solver \<noteq> ''Linear Programming'' \<or> pre_check t (AList.delete teamID (teams self)) False"
  shows "is_eliminated maximum_flow lp_flow same_object self teamID solver =
     (Inr (pre_check t (AList.delete teamID (teams self)) False), self')"
  using assms by (auto simp: is_eliminated_def Let_def)

lemma sum_values_sub:
  "distinct (map fst al) \<Longrightarrow> set ps \<subseteq> set al \<Longrightarrow>
     sum_values al (map fst ps) acc = Inr (acc + sum_list (map snd ps))"
proof (induction ps arbitrary: acc)
  case Nil
  then show ?case by simp
next
  case (Cons p ps)
  obtain k v where p: "p = (k, v)" by (cases p)
  have "map_of al k = Some v" using Cons.prems p by simp
  then show ?case using Cons p by (simp add: add.assoc)
qed

lemma sum_values_total:
  "distinct (map fst al) \<Longrightarrow> sum_values al (map fst al) 0 = Inr (sum_list (map snd al))"
  using sum_values_sub [of al al 0] by simp

lemma edges_add_node [simp]: "edges (add_node n g) = edges g"
  by (simp add: add_node_def)

lemma edges_add_edge [simp]: "edges (add_edge u v c g) = AList.update (u, v) c (edges g)"
  by (simp add: add_edge_def Let_def)

lemma set_update_subset: "set (AList.update k v al) \<subseteq> insert (k, v) (set al)"
  by (induction al) auto

lemma matchup_body_distinct:
  "matchup_body self teamID teamIDs i j st = (r, st') \<Longrightarrow>
     distinct (map fst (snd st)) \<Longrightarrow> distinct (map fst (snd st'))"
  by (auto simp: matchup_body_def Let_def AList.distinct_update
      split: if_splits option.splits sum.splits)

lemma create_network_distinct:
  assumes "create_network same_object self teamID = (Inr saturated_edges, self')"
  shows "distinct (map fst saturated_edges)"
proof -
  let ?ids = "get_team_IDs self"
  let ?inner = "\<lambda>i. for_each (matchup_body self teamID ?ids i) [i + 1..<length ?ids]"
  have inner: "distinct (map fst (snd c))"
    if "?inner i a = (b, c)" and "distinct (map fst (snd a))" for i a b c
    using that(1) that(2)
    by (rule for_each_invariant [where P = "\<lambda>st. distinct (map fst (snd st))"])
       (rule matchup_body_distinct)
  have outer: "distinct (map fst (snd st'))"
    if "for_each ?inner [0..<length ?ids - 1] (g1, []) = (r, st')" for g1 r st'
    using that
    by (rule for_each_invariant [where P = "\<lambda>st. distinct (map fst (snd st))"])
       (auto intro: inner)
  show ?thesis
    using assms outer
    by (auto simp: create_network_def Let_def split: prod.splits option.splits)
qed

lemma node_name_not_Sink: "node_name a b \<noteq> ''Sink''"
proof
  assume "node_name a b = ''Sink''"
  moreover have "CHR ''_'' \<in> set (node_name a b)" by (simp add: node_name_def)
  ultimately show False by simp
qed

lemma sink_nonneg_add_node [simp]: "sink_nonneg (add_node n g) = sink_nonneg g"
  by (simp add: sink_nonneg_def)

lemma sink_nonneg_add_edge:
  "sink_nonneg g \<Longrightarrow> v = Str ''Sink'' \<longrightarrow> 0 \<le> c \<Longrightarrow> sink_nonneg (add_edge u v c g)"
  using set_update_subset [of "(u, v)" c "edges g"]
  by (auto simp: sink_nonneg_def)

lemma sink_body_nonneg:
  assumes "map_of (teams self) teamID = Some t"
    and "\<not> pre_check t (AList.delete teamID (teams self)) False"
    and "py_is same_object teamID teamID \<or> 0 \<le> remaining t"
    and "sink_body same_object self teamID k g = (r, g')" and "sink_nonneg g"
  shows "sink_nonneg g'"
proof (cases "py_is same_object k teamID")
  case True
  then show ?thesis using assms(4,5) by (simp add: sink_body_def)
next
  case False
  show ?thesis
  proof (cases "map_of (teams self) k")
    case None
    then show ?thesis using assms(1,4,5) False by (auto simp: sink_body_def Let_def)
  next
    case (Some other)
    have "wins other \<le> wins t + remaining t"
    proof (cases "k = teamID")
      case True
      then have "other = t" using Some assms(1) by simp
      moreover have "0 \<le> remaining t" using assms(3) False True by simp
      ultimately show ?thesis by simp
    next
      case ne: False
      then have "(k, other) \<in> set (AList.delete teamID (teams self))"
        using Some by (auto simp: set_delete dest: map_of_SomeD)
      then show ?thesis using assms(2) by (auto simp: pre_check_iff)
    qed
    then show ?thesis
      using assms(1,4,5) False Some
      by (auto simp: sink_body_def Let_def intro!: sink_nonneg_add_edge)
  qed
qed

text \<open>
  When the \<^verbatim>\<open>teamID\<close> passed is equal to a key without being that object,
  the test of line 104 lets the queried team through: it gets a node and an
  edge into the sink whose capacity is its own \<^verbatim>\<open>remaining\<close>.
\<close>

lemma sink_body_own_edge:
  assumes "map_of (teams self) teamID = Some t" and "\<not> py_is same_object teamID teamID"
  shows "sink_body same_object self teamID teamID g =
     (None, add_edge (Num teamID) (Str ''Sink'') (remaining t) (add_node (Num teamID) g))"
  using assms by (simp add: sink_body_def)

lemma matchup_body_nonneg:
  assumes "matchup_body self teamID teamIDs i j st = (r, st')" and "sink_nonneg (fst st)"
  shows "sink_nonneg (fst st')"
  using assms
  by (auto simp: matchup_body_def Let_def node_name_not_Sink
      split: if_splits option.splits sum.splits intro!: sink_nonneg_add_edge)

text \<open>The query on the sample roster.\<close>

lemma create_network_example_0:
  "create_network True example_division 0 =
    (Inr [(''1_2'', 2)],
     example_division\<lparr>G := \<lparr>nodes = [Str ''Source'', Str ''Sink'', Num 1, Num 2, Str ''1_2''],
            edges = [((Num 1, Str ''Sink''), - 5), ((Num 2, Str ''Sink''), - 5),
               ((Str ''Source'', Str ''1_2''), 2),
               ((Str ''1_2'', Num 1), 2), ((Str ''1_2'', Num 2), 2)]\<rparr>\<rparr>)"
  by code_simp

lemma create_network_example_1:
  "create_network True example_division 1 =
    (Inr [(''0_2'', 0)],
     example_division\<lparr>G := \<lparr>nodes = [Str ''Source'', Str ''Sink'', Num 0, Num 2, Str ''0_2''],
            edges = [((Num 0, Str ''Sink''), 7), ((Num 2, Str ''Sink''), 2),
               ((Str ''Source'', Str ''0_2''), 0),
               ((Str ''0_2'', Num 0), 0), ((Str ''0_2'', Num 2), 0)]\<rparr>\<rparr>)"
  by code_simp

lemma example_lookup_0: "map_of (teams example_division) 0 = Some team_A"
  by (simp add: example_division_def)

lemma example_lookup_1: "map_of (teams example_division) 1 = Some team_B"
  by (simp add: example_division_def)

lemma example_pre_check_1:
  "\<not> pre_check team_B (AList.delete 1 (teams example_division)) False"
  by (simp add: example_division_def team_A_def team_B_def team_C_def AList.delete_eq)

lemma example_pre_check_0:
  "pre_check team_A (AList.delete 0 (teams example_division)) False"
  by (simp add: example_division_def team_A_def team_B_def team_C_def AList.delete_eq)

lemma is_eliminated_example_0:
  "is_eliminated maximum_flow lp_flow True example_division 0 solver =
     (Inr True, snd (create_network True example_division 0))"
  using is_eliminated_flagged [OF example_lookup_0 create_network_example_0, of solver]
    example_pre_check_0
  by (simp add: create_network_example_0)

section \<open>Errors of the roster lookups\<close>

text \<open>
  Claim C9. Asking a team for its remaining games against an opponent id with
  no entry in its \<^verbatim>\<open>against\<close> data raises an error instead of returning zero.
  The data is a list, so the ids without an entry are the indices out of its
  range: from the length upwards (every team id is of this kind or listed) and
  below minus the length. \<^verbatim>\<open>get_against\<close> raises \<^verbatim>\<open>ValueError\<close> on all of them.
\<close>

theorem get_against_unlisted:
  "j < - int (length (against t)) \<or> int (length (against t)) \<le> j \<Longrightarrow>
     get_against t (Some j) = Inl ValueError"
  by (auto simp: get_against_def py_index_def)

theorem get_against_unlisted_witness:
  "int (length (against team_A)) \<le> 3 \<and> get_against team_A (Some 3) = Inl ValueError"
  using get_against_unlisted [of 3 team_A] by (simp add: team_A_def)

text \<open>
  Claim C6. For a team id that is not in the roster, \<^verbatim>\<open>is_eliminated\<close> fails
  on its first lookup \<^verbatim>\<open>self.teams[teamID]\<close>, with Python's \<^verbatim>\<open>KeyError\<close>, and
  the division is as it was: \<^verbatim>\<open>self.G\<close> has not been rebuilt, no network has
  been constructed.
\<close>

theorem is_eliminated_unknown_team:
  "teamID \<notin> set (get_team_IDs self) \<Longrightarrow>
     is_eliminated maximum_flow lp_flow same_object self teamID solver = (Inl KeyError, self)"
  by (simp add: is_eliminated_def get_team_IDs_def map_of_eq_None_iff [THEN iffD2])

theorem is_eliminated_unknown_team_witness:
  "7 \<notin> set (get_team_IDs example_division) \<and>
   is_eliminated (const_flow 0) (const_flow 0) True example_division 7 ''Network Flows''
     = (Inl KeyError, example_division)"
  using is_eliminated_unknown_team [of 7 example_division "const_flow 0" "const_flow 0" True
      "''Network Flows''"]
  by (simp add: get_team_IDs_def example_division_def)

section \<open>The roster is read only\<close>

text \<open>
  Claim C8. A query never changes the roster: after \<^verbatim>\<open>is_eliminated\<close>, and
  after \<^verbatim>\<open>create_network\<close>, \<^verbatim>\<open>self.teams\<close> holds the same team records under
  the same ids in the same order, whatever the team id and the solver string
  are and whether the call returns or raises.
\<close>

theorem roster_unchanged:
  "teams (snd (is_eliminated maximum_flow lp_flow same_object self teamID solver)) = teams self \<and>
   teams (snd (create_network same_object self teamID)) = teams self"
proof -
  have cn: "teams (snd (create_network same_object self teamID)) = teams self"
    by (rule teams_create_network)
  obtain r self' where c: "create_network same_object self teamID = (r, self')"
    by (cases "create_network same_object self teamID")
  with cn have "teams self' = teams self" by simp
  then have "teams (snd (is_eliminated maximum_flow lp_flow same_object self teamID solver)) = teams self"
    using c by (simp add: is_eliminated_def Let_def split: option.splits sum.splits)
  with cn show ?thesis by simp
qed

section \<open>The query\<close>

text \<open>
  Claim C5, as stated: a solver string that is neither \<^verbatim>\<open>"Network Flows"\<close> nor
  \<^verbatim>\<open>"Linear Programming"\<close> makes \<^verbatim>\<open>is_eliminated\<close> fail with an
  unsupported-solver error. The code has no such error: on the sample roster
  the query for team 1 with the string \<^verbatim>\<open>"Simplex"\<close> returns \<^verbatim>\<open>False\<close>.
\<close>

theorem unrecognised_solver_counterexample:
  "fst (is_eliminated (const_flow 0) (const_flow 0) True example_division 1 ''Simplex'') = Inr False"
  by code_simp

text \<open>
  Claim C5, amended. For a team of the roster and a solver string that is
  neither of the two names, \<^verbatim>\<open>is_eliminated\<close> runs no solver and raises no
  solver error: once the network is built it returns the flag of the trivial
  check, which is true exactly when some other team has more wins than the
  queried team can still reach.
\<close>

theorem is_eliminated_unrecognised_solver:
  assumes "solver \<noteq> ''Network Flows''" and "solver \<noteq> ''Linear Programming''"
    and "map_of (teams self) teamID = Some t"
    and "create_network same_object self teamID = (Inr saturated_edges, self')"
  shows "is_eliminated maximum_flow lp_flow same_object self teamID solver =
     (Inr (\<exists>(k, other) \<in> set (teams self). k \<noteq> teamID \<and> wins t + remaining t < wins other), self')"
proof -
  have "pre_check t (AList.delete teamID (teams self)) False \<longleftrightarrow>
        (\<exists>(k, other) \<in> set (teams self). k \<noteq> teamID \<and> wins t + remaining t < wins other)"
    by (auto simp: pre_check_iff set_delete)
  then show ?thesis
    using is_eliminated_flagged [OF assms(3) assms(4), of solver maximum_flow lp_flow] assms(1,2)
    by simp
qed

theorem is_eliminated_unrecognised_solver_witness:
  "''Simplex'' \<noteq> ''Network Flows'' \<and> ''Simplex'' \<noteq> ''Linear Programming'' \<and>
   map_of (teams example_division) 1 = Some team_B \<and>
   is_eliminated (const_flow 0) (const_flow 0) True example_division 1 ''Simplex'' =
     (Inr False, snd (create_network True example_division 1))"
proof -
  have a: "''Simplex'' \<noteq> ''Network Flows''" and b: "''Simplex'' \<noteq> ''Linear Programming''"
    by simp_all
  have "\<not> (\<exists>(k, other) \<in> set (teams example_division).
             k \<noteq> 1 \<and> wins team_B + remaining team_B < wins other)"
    by (simp add: example_division_def team_A_def team_B_def team_C_def)
  then show ?thesis
    using is_eliminated_unrecognised_solver [OF a b example_lookup_1 create_network_example_1,
        of "const_flow 0" "const_flow 0"] example_lookup_1 create_network_example_1
    by simp
qed

text \<open>
  Claim C3, as stated: when another team already has more wins than the
  queried team can reach, \<^verbatim>\<open>is_eliminated\<close> returns true at once, without
  building a network. On the sample roster team B has more wins than team A
  can reach, and the query for team A leaves the network for team A in
  \<^verbatim>\<open>self.G\<close>, which was empty before: \<^verbatim>\<open>create_network\<close> has run.
\<close>

theorem trivial_check_counterexample:
  "map_of (teams example_division) 0 = Some team_A \<and>
   map_of (teams example_division) 1 = Some team_B \<and>
   wins team_A + remaining team_A < wins team_B \<and>
   nodes (G example_division) = [] \<and>
   nodes (G (snd (is_eliminated (const_flow 0) (const_flow 0) True example_division 0 ''Network Flows'')))
     = [Str ''Source'', Str ''Sink'', Num 1, Num 2, Str ''1_2'']"
proof -
  have "wins team_A + remaining team_A < wins team_B" by (simp add: team_A_def team_B_def)
  moreover have "nodes (G example_division) = []"
    by (simp add: example_division_def empty_graph_def)
  ultimately show ?thesis
    using example_lookup_0 example_lookup_1
    by (simp add: is_eliminated_example_0 create_network_example_0)
qed

text \<open>
  Claim C3, amended. When another team already has more wins than the queried
  team can reach, \<^verbatim>\<open>is_eliminated\<close> still calls \<^verbatim>\<open>create_network\<close>, and then
  returns true without running a solver: the result is the same for every
  solver string and every behaviour of the two solvers. An exception of
  \<^verbatim>\<open>create_network\<close> is passed on.
\<close>

theorem is_eliminated_trivial:
  assumes "map_of (teams self) teamID = Some t"
    and "(k, other) \<in> set (teams self)" and "k \<noteq> teamID"
    and "wins t + remaining t < wins other"
  shows "is_eliminated maximum_flow lp_flow same_object self teamID solver =
     (case create_network same_object self teamID of
        (Inl e, self') \<Rightarrow> (Inl e, self')
      | (Inr saturated_edges, self') \<Rightarrow> (Inr True, self'))"
proof -
  have "pre_check t (AList.delete teamID (teams self)) False"
    using assms(2-4) by (auto simp: pre_check_iff set_delete)
  then show ?thesis
    using assms(1) by (simp add: is_eliminated_def Let_def split: prod.splits sum.splits)
qed

theorem is_eliminated_trivial_witness:
  "map_of (teams example_division) 0 = Some team_A \<and>
   (1, team_B) \<in> set (teams example_division) \<and> (1::int) \<noteq> 0 \<and>
   wins team_A + remaining team_A < wins team_B \<and>
   fst (is_eliminated (const_flow 0) (const_flow 0) True example_division 0 ''Linear Programming'') = Inr True"
proof -
  have a: "(1, team_B) \<in> set (teams example_division)" by (simp add: example_division_def)
  have b: "(1::int) \<noteq> 0" by simp
  have c: "wins team_A + remaining team_A < wins team_B" by (simp add: team_A_def team_B_def)
  show ?thesis
    using is_eliminated_trivial [OF example_lookup_0 a b c, of "const_flow 0" "const_flow 0" True
        "''Linear Programming''"]
      example_lookup_0 a c
    by (simp add: create_network_example_0)
qed

section \<open>The two solver paths\<close>

text \<open>
  \<^verbatim>\<open>network_flows\<close> and \<^verbatim>\<open>linear_programming\<close> differ only in the library
  result they compare the sum with: where the flow value of \<^verbatim>\<open>networkx\<close> and
  the rounded optimum of the linear program coincide on every graph, the query
  gives the same answer under both solver names.
\<close>

lemma verdicts_agree:
  assumes "\<And>g. maximum_flow g = lp_flow g"
  shows "is_eliminated maximum_flow lp_flow same_object self teamID ''Network Flows'' =
         is_eliminated maximum_flow lp_flow same_object self teamID ''Linear Programming''"
  by (simp add: is_eliminated_def network_flows_def linear_programming_def assms Let_def
      split: option.splits prod.splits sum.splits)

section \<open>The verdict of the flow solver\<close>

text \<open>
  Claim C2. On the network built by \<^verbatim>\<open>create_network\<close>, \<^verbatim>\<open>network_flows\<close>
  answers true exactly when the flow value computed by the library is less
  than the sum of the values of \<^verbatim>\<open>saturated_edges\<close>.
\<close>

theorem network_flows_verdict:
  assumes "create_network same_object self0 teamID = (Inr saturated_edges, self)"
    and "maximum_flow (G self) = Inr max_flow"
  shows "network_flows maximum_flow self saturated_edges =
     Inr (max_flow < sum_list (map snd saturated_edges))"
  using sum_values_total [OF create_network_distinct [OF assms(1)]] assms(2)
  by (simp add: network_flows_def)

theorem network_flows_verdict_witness:
  "const_flow 1 (G (snd (create_network True example_division 0))) = Inr 1 \<and>
   network_flows (const_flow 1) (snd (create_network True example_division 0)) [(''1_2'', 2)] = Inr True"
proof -
  have a: "create_network True example_division 0 = (Inr [(''1_2'', 2)], snd (create_network True example_division 0))"
    by (simp add: create_network_example_0)
  have b: "const_flow 1 (G (snd (create_network True example_division 0))) = Inr 1"
    by (simp add: const_flow_def)
  show ?thesis
    using network_flows_verdict [of True example_division 0 "[(''1_2'', 2)]"
        "snd (create_network True example_division 0)" "const_flow 1" 1] a b
    by simp
qed

section \<open>Capacities into the sink\<close>

text \<open>
  Claim C7, as stated: no network is built with a negative capacity on an edge
  from a team into the sink, because the trivial check answers first. The
  query for team A on the sample roster builds the edge from team 1 into the
  sink with capacity \<open>0 + 0 - 5\<close>.
\<close>

theorem sink_capacity_counterexample:
  "map_of (teams example_division) 0 = Some team_A \<and>
   map_of (edges (G (snd (is_eliminated (const_flow 0) (const_flow 0) True example_division 0 ''Network Flows''))))
     (Num 1, Str ''Sink'') = Some (- 5)"
  using example_lookup_0 by (simp add: is_eliminated_example_0 create_network_example_0)

text \<open>
  Claim C7, amended. When the trivial check does not fire, which is the only
  case in which \<^verbatim>\<open>is_eliminated\<close> runs a solver, and the \<^verbatim>\<open>teamID\<close> passed
  is identical to the key of the roster (or the \<^verbatim>\<open>remaining\<close> of the queried
  team is not negative), every edge into the sink of the network that
  \<^verbatim>\<open>create_network\<close> leaves in \<^verbatim>\<open>self.G\<close> has a capacity that is not negative.
  When the check fires the network is built all the same, and no solver sees
  it. The third hypothesis is there for the identity test of line 104: an
  equal \<^verbatim>\<open>teamID\<close> that is another object gives the queried team its own
  edge into the sink, of capacity \<^verbatim>\<open>remaining\<close>, which the loader does not
  keep from being negative.
\<close>

theorem solver_network_sink_capacities:
  assumes "map_of (teams self) teamID = Some t"
    and "\<not> pre_check t (AList.delete teamID (teams self)) False"
    and "py_is same_object teamID teamID \<or> 0 \<le> remaining t"
    and "create_network same_object self teamID = (r, self')"
  shows "sink_nonneg (G self')"
proof -
  let ?ids = "get_team_IDs self"
  let ?g0 = "add_node (Str ''Sink'') (add_node (Str ''Source'') empty_graph)"
  let ?inner = "\<lambda>i. for_each (matchup_body self teamID ?ids i) [i + 1..<length ?ids]"
  obtain r1 g1 where l1: "for_each (sink_body same_object self teamID) ?ids ?g0 = (r1, g1)"
    by (cases "for_each (sink_body same_object self teamID) ?ids ?g0")
  have "sink_nonneg ?g0" by (simp add: sink_nonneg_def empty_graph_def)
  with l1 have g1: "sink_nonneg g1"
    by (rule for_each_invariant) (rule sink_body_nonneg [OF assms(1,2,3)])
  obtain r2 st2 where l2: "for_each ?inner [0..<length ?ids - 1] (g1, []) = (r2, st2)"
    by (cases "for_each ?inner [0..<length ?ids - 1] (g1, [])")
  have inner: "sink_nonneg (fst c)" if "?inner i a = (b, c)" and "sink_nonneg (fst a)" for i a b c
    using that(1) that(2)
    by (rule for_each_invariant [where P = "\<lambda>st. sink_nonneg (fst st)"])
       (rule matchup_body_nonneg)
  have st2: "sink_nonneg (fst st2)"
    using l2 by (rule for_each_invariant [where P = "\<lambda>st. sink_nonneg (fst st)"])
      (auto simp: g1 intro: inner)
  show ?thesis
    using assms(4) l1 l2 g1 st2
    by (auto simp: create_network_def Let_def split: option.splits)
qed

theorem solver_network_sink_capacities_witness:
  "map_of (teams example_division) 1 = Some team_B \<and>
   \<not> pre_check team_B (AList.delete 1 (teams example_division)) False \<and>
   (py_is True 1 1 \<or> 0 \<le> remaining team_B) \<and>
   sink_nonneg (G (snd (create_network True example_division 1)))"
proof -
  have p: "py_is True 1 1 \<or> 0 \<le> remaining team_B" by (simp add: py_is_def)
  have c: "create_network True example_division 1 =
      (fst (create_network True example_division 1), snd (create_network True example_division 1))"
    by simp
  show ?thesis
    using solver_network_sink_capacities [OF example_lookup_1 example_pre_check_1 p c]
      example_lookup_1 example_pre_check_1 p
    by simp
qed

section \<open>The loader numbers the teams by position\<close>

lemma update_fresh: "k \<notin> fst ` set al \<Longrightarrow> AList.update k v al = al @ [(k, v)]"
  by (induction al) auto

lemma make_team_ID: "make_team py_int i teaminfo = Inr t \<Longrightarrow> ID t = i"
  by (auto simp: make_team_def split: sum.splits)

lemma read_rows_ids:
  assumes "read_rows py_int (int m) rows self = (None, self')"
    and "map fst (teams self) = map int [0..<m]"
    and "\<forall>(k, t) \<in> set (teams self). ID t = k"
  shows "map fst (teams self') = map int [0..<m + length rows] \<and>
         (\<forall>(k, t) \<in> set (teams self'). ID t = k)"
  using assms
proof (induction rows arbitrary: m self)
  case Nil
  then show ?case by simp
next
  case (Cons teaminfo rest)
  from Cons.prems(1) obtain t where
    t: "make_team py_int (int m) teaminfo = Inr t"
    and rest: "read_rows py_int (int m + 1) rest
                 (self\<lparr>teams := AList.update (int m) t (teams self)\<rparr>) = (None, self')"
    by (auto split: sum.splits)
  have fresh: "int m \<notin> fst ` set (teams self)"
  proof -
    have "int m \<notin> set (map fst (teams self))" using Cons.prems(2) by auto
    then show ?thesis by simp
  qed
  let ?self = "self\<lparr>teams := AList.update (int m) t (teams self)\<rparr>"
  have upd: "teams ?self = teams self @ [(int m, t)]"
    using update_fresh [OF fresh] by simp
  have a: "map fst (teams ?self) = map int [0..<Suc m]"
    using upd Cons.prems(2) by simp
  have b: "\<forall>(k, t) \<in> set (teams ?self). ID t = k"
    using upd Cons.prems(3) make_team_ID [OF t] by auto
  have r: "read_rows py_int (int (Suc m)) rest ?self = (None, self')"
    using rest by (simp add: add.commute)
  show ?case using Cons.IH [OF r a b] by simp
qed

lemma map_of_nth:
  "distinct (map fst al) \<Longrightarrow> i < length al \<Longrightarrow> map_of al (fst (al ! i)) = Some (snd (al ! i))"
  by (metis map_of_is_SomeI nth_mem prod.collapse)
lemma Division_sample: "Division decimal_int sample_lines = Inr example_division"
  by code_simp

lemma example_ids: "get_team_IDs example_division = map int [0..<3]"
  by code_simp

text \<open>
  Claim C10. A division built by \<^verbatim>\<open>readDivision\<close> has the team ids
  \<open>0, ..., n - 1\<close> in the order of the rows (one team for every line after the
  first), and the team stored under \<open>k\<close> has \<^verbatim>\<open>ID\<close> \<open>k\<close>. So the position \<open>i\<close>
  in the list of team ids holds the id \<open>i\<close>, and the lookup
  \<^verbatim>\<open>self.teams[i]\<close> by position finds the team at that position: in
  \<^verbatim>\<open>create_network\<close> indexing by position and by id value are the same.
\<close>

theorem readDivision_contiguous_ids:
  assumes "Division py_int lines = Inr self"
  shows "get_team_IDs self = map int [0..<length lines - 1] \<and>
         (\<forall>k t. map_of (teams self) k = Some t \<longrightarrow> ID t = k) \<and>
         (\<forall>i < length (get_team_IDs self).
            get_team_IDs self ! i = int i \<and>
            map_of (teams self) (int i) = Some (snd (teams self ! i)))"
proof -
  let ?d = "\<lparr>teams = [], G = empty_graph\<rparr>"
  have run: "read_rows py_int (int 0) (drop 1 lines) ?d = (None, self)"
    using assms by (auto simp: Division_def readDivision_def split: prod.splits option.splits)
  have ids: "map fst (teams self) = map int [0..<length lines - 1]"
    and own: "\<forall>(k, t) \<in> set (teams self). ID t = k"
    using read_rows_ids [OF run] by simp_all
  have dist: "distinct (map fst (teams self))"
    unfolding ids by (simp add: distinct_map inj_on_def)
  have pos: "get_team_IDs self ! i = int i \<and>
             map_of (teams self) (int i) = Some (snd (teams self ! i))"
    if "i < length (get_team_IDs self)" for i
  proof -
    have len: "i < length (teams self)" using that by (simp add: get_team_IDs_def)
    have "i < length lines - 1" using that ids by (simp add: get_team_IDs_def)
    then have nth: "map fst (teams self) ! i = int i" unfolding ids by simp
    then have "fst (teams self ! i) = int i" using len by simp
    then show ?thesis using map_of_nth [OF dist len] nth by (simp add: get_team_IDs_def)
  qed
  have "ID t = k" if "map_of (teams self) k = Some t" for k t
    using own map_of_SomeD [OF that] by auto
  then show ?thesis using ids pos by (simp add: get_team_IDs_def)
qed

theorem readDivision_contiguous_ids_witness:
  "Division decimal_int sample_lines = Inr example_division \<and>
   get_team_IDs example_division = map int [0..<length sample_lines - 1] \<and>
   get_team_IDs example_division ! 2 = 2"
proof -
  have "(2::nat) < length (get_team_IDs example_division)" by (simp add: example_ids)
  then show ?thesis
    using readDivision_contiguous_ids [OF Division_sample] Division_sample by fastforce
qed

section \<open>Names of the matchup nodes\<close>

text \<open>
  \<^verbatim>\<open>str\<close> is injective on the integers and never yields an underscore, so
  two pairs of ids with the same node name are the same pair.
\<close>

lemma digit_cases: "d < 10 \<Longrightarrow> d \<in> {0, 1, 2, 3, 4, 5, 6, 7, 8, 9 :: nat}"
  by auto

lemma digit_value_digit_char: "d < 10 \<Longrightarrow> digit_value (digit_char d) = d"
  using digit_cases [of d] by (auto simp: digit_value_def digit_char_def)

lemma digit_char_in: "d < 10 \<Longrightarrow> digit_char d \<in> set ''0123456789''"
  using digit_cases [of d] by (auto simp: digit_char_def)

lemma str_nat_small: "n < 10 \<Longrightarrow> str_nat n = [digit_char n]"
  using str_nat.simps [of n] by simp

lemma str_nat_large: "\<not> n < 10 \<Longrightarrow> str_nat n = str_nat (n div 10) @ [digit_char (n mod 10)]"
  using str_nat.simps [of n] by simp

lemma digits_value_single: "digits_value [c] = digit_value c"
  by (simp add: digits_value_def)

lemma digits_value_snoc: "digits_value (s @ [c]) = 10 * digits_value s + digit_value c"
  by (simp add: digits_value_def)

lemma str_nat_digits: "set (str_nat n) \<subseteq> set ''0123456789''"
proof (induction n rule: str_nat.induct)
  case (1 n)
  show ?case
  proof (cases "n < 10")
    case True
    then show ?thesis using digit_char_in [of n] by (simp only: str_nat_small) simp
  next
    case False
    have "n mod 10 < 10" by simp
    then have "digit_char (n mod 10) \<in> set ''0123456789''" by (rule digit_char_in)
    moreover have "set (str_nat (n div 10)) \<subseteq> set ''0123456789''" using 1 False by simp
    ultimately show ?thesis by (simp only: str_nat_large [OF False]) simp
  qed
qed

lemma digits_value_str_nat: "digits_value (str_nat n) = n"
proof (induction n rule: str_nat.induct)
  case (1 n)
  show ?case
  proof (cases "n < 10")
    case True
    then show ?thesis
      by (simp only: str_nat_small digits_value_single digit_value_digit_char)
  next
    case False
    have m: "n mod 10 < 10" by simp
    have "digits_value (str_nat (n div 10)) = n div 10" using 1 False by simp
    then have "digits_value (str_nat n) = 10 * (n div 10) + n mod 10"
      by (simp only: str_nat_large [OF False] digits_value_snoc digit_value_digit_char [OF m])
    then show ?thesis by simp
  qed
qed

lemma str_nat_inj: "str_nat m = str_nat n \<Longrightarrow> m = n"
  by (metis digits_value_str_nat)

lemma str_nat_only_digits: "c \<notin> set ''0123456789'' \<Longrightarrow> c \<notin> set (str_nat n)"
  using str_nat_digits [of n] by blast

lemma underscore_str_nat: "CHR ''_'' \<notin> set (str_nat n)"
  by (rule str_nat_only_digits) simp

lemma minus_str_nat: "CHR ''-'' \<notin> set (str_nat n)"
  by (rule str_nat_only_digits) simp

lemma underscore_py_str: "CHR ''_'' \<notin> set (py_str i)"
  by (simp add: py_str_def underscore_str_nat)

lemma minus_not_str_nat: "CHR ''-'' # s \<noteq> str_nat n"
proof
  assume "CHR ''-'' # s = str_nat n"
  then have "CHR ''-'' \<in> set (str_nat n)" by (metis list.set_intros(1))
  then show False using minus_str_nat by simp
qed

lemma py_str_inj: "py_str i = py_str j \<Longrightarrow> i = j"
proof -
  assume eq: "py_str i = py_str j"
  show "i = j"
  proof (cases "i < 0")
    case True
    show ?thesis
    proof (cases "j < 0")
      case True
      with \<open>i < 0\<close> eq have "str_nat (nat (- i)) = str_nat (nat (- j))" by (simp add: py_str_def)
      then have "nat (- i) = nat (- j)" by (rule str_nat_inj)
      then show ?thesis using True \<open>i < 0\<close> by simp
    next
      case False
      with \<open>i < 0\<close> eq show ?thesis
        using minus_not_str_nat [of "str_nat (nat (- i))" "nat j"] by (simp add: py_str_def)
    qed
  next
    case False
    show ?thesis
    proof (cases "j < 0")
      case True
      with False eq show ?thesis
        using minus_not_str_nat [of "str_nat (nat (- j))" "nat i"] by (simp add: py_str_def)
    next
      case j: False
      with False eq have "str_nat (nat i) = str_nat (nat j)" by (simp add: py_str_def)
      then have "nat i = nat j" by (rule str_nat_inj)
      then show ?thesis using False j by simp
    qed
  qed
qed

lemma split_at_unique:
  "x \<notin> set xs \<Longrightarrow> x \<notin> set xs' \<Longrightarrow> xs @ x # ys = xs' @ x # ys' \<Longrightarrow> xs = xs' \<and> ys = ys'"
proof (induction xs arbitrary: xs')
  case Nil
  then show ?case by (cases xs') auto
next
  case (Cons a xs)
  then show ?case by (cases xs') auto
qed

lemma node_name_inj: "node_name a b = node_name c d \<Longrightarrow> a = c \<and> b = d"
proof -
  assume "node_name a b = node_name c d"
  then have "py_str a @ CHR ''_'' # py_str b = py_str c @ CHR ''_'' # py_str d"
    by (simp add: node_name_def)
  then have "py_str a = py_str c \<and> py_str b = py_str d"
    by (rule split_at_unique [OF underscore_py_str underscore_py_str])
  then show ?thesis by (auto dest: py_str_inj)
qed

lemma for_each_append:
  "for_each body (xs @ ys) s =
     (case for_each body xs s of (Some e, s') \<Rightarrow> (Some e, s') | (None, s') \<Rightarrow> for_each body ys s')"
  by (induction xs arbitrary: s) (auto split: prod.splits option.splits)

lemma for_each_map_Pair:
  "for_each (\<lambda>(i, j). f i j) (map (Pair i) js) s = for_each (f i) js s"
  by (induction js arbitrary: s) (auto split: prod.splits option.splits)

lemma for_each_nested:
  "for_each (\<lambda>i. for_each (f i) (js i)) is s =
     for_each (\<lambda>(i, j). f i j) (concat (map (\<lambda>i. map (Pair i) (js i)) is)) s"
  by (induction "is" arbitrary: s)
     (auto simp: for_each_append for_each_map_Pair split: prod.splits option.splits)

lemma for_each_steps_aux:
  assumes "for_each body xs s = (None, s')" and "I pre s"
    and "\<And>ys x zs a c. pre @ xs = ys @ x # zs \<Longrightarrow> I ys a \<Longrightarrow> body x a = (None, c) \<Longrightarrow> I (ys @ [x]) c"
  shows "I (pre @ xs) s'"
  using assms
proof (induction xs arbitrary: pre s)
  case Nil
  then show ?case by simp
next
  case (Cons x xs)
  from Cons.prems(1) obtain c where
    c: "body x s = (None, c)" and rest: "for_each body xs c = (None, s')"
    by (auto split: prod.splits option.splits)
  have "I (pre @ [x]) c" using Cons.prems(3) [of pre x xs s c] Cons.prems(2) c by simp
  then have "I ((pre @ [x]) @ xs) s'"
    using rest Cons.prems(3) by (intro Cons.IH [of c "pre @ [x]"]) auto
  then show ?case by simp
qed

lemma for_each_steps:
  assumes "for_each body xs s = (None, s')" and "I [] s"
    and "\<And>ys x zs a c. xs = ys @ x # zs \<Longrightarrow> I ys a \<Longrightarrow> body x a = (None, c) \<Longrightarrow> I (ys @ [x]) c"
  shows "I xs s'"
  using for_each_steps_aux [of body xs s s' I "[]"] assms by simp

lemma distinct_pairs:
  "distinct is \<Longrightarrow> (\<And>i. distinct (js i)) \<Longrightarrow>
     distinct (concat (map (\<lambda>i. map (Pair i) (js i)) is))"
  by (induction "is") (auto simp: distinct_map inj_on_def)

lemma set_pairs:
  "set (concat (map (\<lambda>i. map (Pair i) (js i)) is)) = {(i, j). i \<in> set is \<and> j \<in> set (js i)}"
  by auto

section \<open>The matchup loop\<close>

lemma distinct_all_pairs: "distinct (all_pairs n)"
  unfolding all_pairs_def by (rule distinct_pairs) simp_all

lemma set_all_pairs: "set (all_pairs n) = {(i, j). i < j \<and> j < n}"
  unfolding all_pairs_def set_pairs by auto

lemma matchups_pairs:
  "distinct (matchups n teamID) \<and>
   set (matchups n teamID) = {(i, j). i < j \<and> j < n \<and> int i \<noteq> teamID \<and> int j \<noteq> teamID}"
  by (auto simp: matchups_def distinct_all_pairs set_all_pairs)

lemma get_against_Inr:
  "get_against t (Some (int j)) = Inr c \<Longrightarrow> j < length (against t) \<and> c = against t ! j"
  by (auto simp: get_against_def py_index_def split: if_splits)

lemma matchup_edges_kept:
  assumes "edges g' = AList.update (Str nm, Num b) v (AList.update (Str nm, Num a) v
             (AList.update (Str ''Source'', Str nm) v (edges g)))"
    and "node_name (int i) (int j) \<noteq> nm" and "matchup_edges g i j c"
  shows "matchup_edges g' i j c"
  using assms by (simp add: matchup_edges_def update_conv')

lemma matchup_edges_new:
  assumes "edges g' = AList.update (Str (node_name (int i) (int j)), Num (int j)) v
             (AList.update (Str (node_name (int i) (int j)), Num (int i)) v
               (AList.update (Str ''Source'', Str (node_name (int i) (int j))) v (edges g)))"
  shows "matchup_edges g' i j v"
  using assms by (simp add: matchup_edges_def update_conv')

lemma roster_lookup:
  assumes "get_team_IDs self = map int [0..<n]" and "i < n"
  shows "map_of (teams self) (int i) = Some (snd (teams self ! i))"
proof -
  have ids: "map fst (teams self) = map int [0..<n]" using assms(1) by (simp add: get_team_IDs_def)
  have dist: "distinct (map fst (teams self))" unfolding ids by (simp add: distinct_map inj_on_def)
  have len: "i < length (teams self)" using ids assms(2) by (metis length_map length_upt minus_nat.diff_0)
  have "map fst (teams self) ! i = int i" unfolding ids using assms(2) by simp
  then have "fst (teams self ! i) = int i" using len by simp
  then show ?thesis using map_of_nth [OF dist len] by simp
qed

lemma matchup_body_skip:
  "int i = teamID \<or> int j = teamID \<Longrightarrow> matchup_body self teamID ids i j st = (None, st)"
  by (simp add: matchup_body_def)

lemma matchup_body_run:
  assumes "get_team_IDs self = map int [0..<n]" and "i < j" and "j < n"
    and "int i \<noteq> teamID" and "int j \<noteq> teamID"
    and "matchup_body self teamID (map int [0..<n]) i j st = (None, st')"
  shows "j < length (against (snd (teams self ! i))) \<and>
         snd st' = AList.update (node_name (int i) (int j)) (games self i j) (snd st) \<and>
         edges (fst st') =
           AList.update (Str (node_name (int i) (int j)), Num (int j)) (games self i j)
             (AList.update (Str (node_name (int i) (int j)), Num (int i)) (games self i j)
               (AList.update (Str ''Source'', Str (node_name (int i) (int j))) (games self i j)
                 (edges (fst st))))"
proof -
  have i: "i < n" using assms(2,3) by simp
  have look: "map_of (teams self) (int i) = Some (snd (teams self ! i))"
    by (rule roster_lookup [OF assms(1) i])
  have nth: "map int [0..<n] ! i = int i" "map int [0..<n] ! j = int j"
    using i assms(3) by simp_all
  from assms(6) obtain v where
    v: "get_against (snd (teams self ! i)) (Some (int j)) = Inr v"
    using assms(4,5) look
    by (auto simp: matchup_body_def Let_def split: sum.splits)
  have vg: "j < length (against (snd (teams self ! i)))" "v = games self i j"
    using get_against_Inr [OF v] by (simp_all add: games_def)
  show ?thesis
    using assms(4,5,6) look v vg nth
    by (auto simp: matchup_body_def Let_def)
qed

lemma matchup_inv_step:
  assumes ids: "get_team_IDs self = map int [0..<n]"
    and xs: "all_pairs n = ys @ x # zs"
    and inv: "matchup_inv self teamID ys a"
    and body: "(case x of (i, j) \<Rightarrow> matchup_body self teamID (map int [0..<n]) i j) a = (None, c)"
  shows "matchup_inv self teamID (ys @ [x]) c"
proof -
  obtain i j where x: "x = (i, j)" by (cases x)
  have mem: "(i, j) \<in> set (all_pairs n)" using xs x by simp
  then have ij: "i < j" "j < n" by (simp_all add: set_all_pairs)
  have "distinct (ys @ x # zs)" using distinct_all_pairs [of n] xs by simp
  then have fresh: "(i, j) \<notin> set ys" using x by simp
  have b: "matchup_body self teamID (map int [0..<n]) i j a = (None, c)" using body x by simp
  show ?thesis
  proof (cases "int i \<noteq> teamID \<and> int j \<noteq> teamID")
    case False
    then have "c = a" using b matchup_body_skip [of i teamID j self "map int [0..<n]" a] by auto
    then show ?thesis using inv False x by (auto simp: matchup_inv_def)
  next
    case True
    let ?nm = "node_name (int i) (int j)"
    let ?v = "games self i j"
    have run: "j < length (against (snd (teams self ! i)))"
      "snd c = AList.update ?nm ?v (snd a)"
      "edges (fst c) = AList.update (Str ?nm, Num (int j)) ?v
             (AList.update (Str ?nm, Num (int i)) ?v
               (AList.update (Str ''Source'', Str ?nm) ?v (edges (fst a))))"
      using matchup_body_run [OF ids ij(1) ij(2) _ _ b] True by simp_all
    have other: "node_name (int i') (int j') \<noteq> ?nm" if "(i', j') \<in> set ys" for i' j'
    proof
      assume "node_name (int i') (int j') = ?nm"
      then have "i' = i \<and> j' = j" using node_name_inj by fastforce
      then show False using that fresh by simp
    qed
    have "?nm \<notin> fst ` set (snd a)"
    proof
      assume "?nm \<in> fst ` set (snd a)"
      then obtain p where p: "p \<in> set ys"
        and eq: "node_name (int (fst p)) (int (snd p)) = ?nm"
        using inv by (auto simp: matchup_inv_def)
      have "(fst p, snd p) \<in> set ys" using p by simp
      then show False using other [of "fst p" "snd p"] eq by blast
    qed
    then have se: "snd c = snd a @ [(?nm, ?v)]"
      using run(2) update_fresh by simp
    have sat: "snd c = map (\<lambda>(i, j). (node_name (int i) (int j), games self i j))
                (filter (\<lambda>(i, j). int i \<noteq> teamID \<and> int j \<noteq> teamID) (ys @ [x]))"
      using se inv True x by (simp add: matchup_inv_def)
    have old: "matchup_edges (fst c) i' j' (games self i' j')"
      if "(i', j') \<in> set ys" and "int i' \<noteq> teamID \<and> int j' \<noteq> teamID" for i' j'
    proof -
      have "matchup_edges (fst a) i' j' (games self i' j')"
        using inv that by (auto simp: matchup_inv_def)
      then show ?thesis by (rule matchup_edges_kept [OF run(3) other [OF that(1)]])
    qed
    have oldlen: "j' < length (against (snd (teams self ! i')))"
      if "(i', j') \<in> set ys" and "int i' \<noteq> teamID \<and> int j' \<noteq> teamID" for i' j'
      using inv that by (auto simp: matchup_inv_def)
    have new: "matchup_edges (fst c) i j ?v" by (rule matchup_edges_new [OF run(3)])
    show ?thesis
      unfolding matchup_inv_def
      using sat old oldlen new run(1) x by auto
  qed
qed

lemma create_network_loops:
  assumes "create_network same_object self teamID = (Inr saturated_edges, self')"
  shows "\<exists>g1. for_each (\<lambda>(i, j). matchup_body self teamID (get_team_IDs self) i j)
            (all_pairs (length (get_team_IDs self))) (g1, []) = (None, (G self', saturated_edges))"
  using assms
  by (auto simp: create_network_def Let_def for_each_nested all_pairs_def
      split: prod.splits option.splits)

text \<open>
  Claim C4. For a roster whose ids are \<open>0, ..., n - 1\<close> in order (as the
  loader builds it) and a query on which \<^verbatim>\<open>create_network\<close> returns: the
  pairs it builds matchup nodes for are, each exactly once, the pairs \<open>i < j\<close>
  of teams other than the queried one; \<^verbatim>\<open>saturated_edges\<close> has one entry per
  pair, under a name of its own, with the pair's remaining games from the
  \<^verbatim>\<open>against\<close> data; the sum of its values is the sum of these counts; and the
  network has the edge from \<^verbatim>\<open>"Source"\<close> to the pair's node and the edges from
  the node to both teams, all three with that capacity.
\<close>

theorem create_network_matchups:
  assumes ids: "get_team_IDs self = map int [0..<n]"
    and ok: "create_network same_object self teamID = (Inr saturated_edges, self')"
  shows "distinct (matchups n teamID) \<and>
     set (matchups n teamID) = {(i, j). i < j \<and> j < n \<and> int i \<noteq> teamID \<and> int j \<noteq> teamID} \<and>
     saturated_edges = map (\<lambda>(i, j). (node_name (int i) (int j), games self i j)) (matchups n teamID) \<and>
     distinct (map fst saturated_edges) \<and>
     sum_list (map snd saturated_edges) = (\<Sum>(i, j)\<leftarrow>matchups n teamID. games self i j) \<and>
     (\<forall>(i, j) \<in> set (matchups n teamID).
        j < length (against (snd (teams self ! i))) \<and>
        matchup_edges (G self') i j (games self i j))"
proof -
  have len: "length (get_team_IDs self) = n" using ids by simp
  obtain g1 where run:
    "for_each (\<lambda>(i, j). matchup_body self teamID (map int [0..<n]) i j)
       (all_pairs n) (g1, []) = (None, (G self', saturated_edges))"
    using create_network_loops [OF ok] ids len by auto
  have start: "matchup_inv self teamID [] (g1, [])" by (simp add: matchup_inv_def)
  have inv: "matchup_inv self teamID (all_pairs n) (G self', saturated_edges)"
    using run start
    by (rule for_each_steps [where I = "matchup_inv self teamID"])
       (rule matchup_inv_step [OF ids])
  have sat: "saturated_edges =
      map (\<lambda>(i, j). (node_name (int i) (int j), games self i j)) (matchups n teamID)"
    using inv by (simp add: matchup_inv_def matchups_def)
  have ed: "\<forall>(i, j) \<in> set (matchups n teamID).
        j < length (against (snd (teams self ! i))) \<and>
        matchup_edges (G self') i j (games self i j)"
    using inv by (auto simp: matchup_inv_def matchups_def)
  have sum: "sum_list (map snd saturated_edges) = (\<Sum>(i, j)\<leftarrow>matchups n teamID. games self i j)"
    unfolding sat by (simp add: comp_def case_prod_unfold)
  show ?thesis
    using matchups_pairs [of n teamID] sat create_network_distinct [OF ok] sum ed by blast
qed

theorem create_network_matchups_witness:
  "get_team_IDs example_division = map int [0..<3] \<and>
   create_network True example_division 0 = (Inr [(''1_2'', 2)], snd (create_network True example_division 0)) \<and>
   [(''1_2'', 2)] = map (\<lambda>(i, j). (node_name (int i) (int j), games example_division i j)) (matchups 3 0) \<and>
   set (matchups 3 0) = {(i, j). i < j \<and> j < 3 \<and> int i \<noteq> 0 \<and> int j \<noteq> 0}"
proof -
  have b: "create_network True example_division 0 =
      (Inr [(''1_2'', 2)], snd (create_network True example_division 0))"
    by (simp add: create_network_example_0)
  show ?thesis
    using create_network_matchups [OF example_ids b] example_ids b by blast
qed

section \<open>Complete rosters\<close>

text \<open>
  The hypothesis that \<^verbatim>\<open>create_network\<close> returns is met by every roster
  with ids \<open>0, ..., n - 1\<close> whose \<^verbatim>\<open>against\<close> lists have an entry for each of
  the \<open>n\<close> teams, for every team of the roster: no lookup raises.
\<close>

lemma for_each_ok:
  "(\<And>x s. x \<in> set xs \<Longrightarrow> fst (body x s) = None) \<Longrightarrow> fst (for_each body xs s) = None"
proof (induction xs arbitrary: s)
  case Nil
  then show ?case by simp
next
  case (Cons x xs)
  obtain c where c: "body x s = (None, c)"
    using Cons.prems [of x s] by (cases "body x s") auto
  show ?case using c Cons.IH [of c] Cons.prems by simp
qed

lemma sink_body_ok:
  assumes "teamID \<in> set (get_team_IDs self)" and "k \<in> set (get_team_IDs self)"
  shows "fst (sink_body same_object self teamID k g) = None"
proof -
  have "map_of (teams self) teamID \<noteq> None" "map_of (teams self) k \<noteq> None"
    using assms by (simp_all add: get_team_IDs_def map_of_eq_None_iff)
  then show ?thesis by (auto simp: sink_body_def Let_def)
qed

lemma matchup_body_ok:
  assumes ids: "get_team_IDs self = map int [0..<n]"
    and full: "\<forall>(k, t) \<in> set (teams self). n \<le> length (against t)"
    and ij: "i < j" "j < n"
  shows "fst (matchup_body self teamID ids' i j st) = None"
proof -
  have i: "i < n" using ij by simp
  have look: "map_of (teams self) (int i) = Some (snd (teams self ! i))"
    by (rule roster_lookup [OF ids i])
  have "length (teams self) = n" using ids by (metis get_team_IDs_def length_map length_upt minus_nat.diff_0)
  then have "teams self ! i \<in> set (teams self)" using i by simp
  moreover have "\<forall>p \<in> set (teams self). n \<le> length (against (snd p))" using full by auto
  ultimately have "n \<le> length (against (snd (teams self ! i)))" by blast
  then have "j < length (against (snd (teams self ! i)))" using ij(2) by simp
  then have "get_against (snd (teams self ! i)) (Some (int j)) = Inr (against (snd (teams self ! i)) ! j)"
    by (simp add: get_against_def py_index_def)
  then show ?thesis using look by (simp add: matchup_body_def Let_def)
qed

lemma create_network_returns:
  assumes ids: "get_team_IDs self = map int [0..<n]"
    and full: "\<forall>(k, t) \<in> set (teams self). n \<le> length (against t)"
    and mem: "teamID \<in> set (get_team_IDs self)"
  shows "\<exists>saturated_edges self'. create_network same_object self teamID = (Inr saturated_edges, self')"
proof -
  let ?g0 = "add_node (Str ''Sink'') (add_node (Str ''Source'') empty_graph)"
  let ?ids = "get_team_IDs self"
  have len: "length ?ids = n" using ids by simp
  have "fst (for_each (sink_body same_object self teamID) ?ids ?g0) = None"
    by (rule for_each_ok) (rule sink_body_ok [OF mem])
  then obtain g1 where l1: "for_each (sink_body same_object self teamID) ?ids ?g0 = (None, g1)"
    by (cases "for_each (sink_body same_object self teamID) ?ids ?g0") auto
  have "fst (for_each (\<lambda>i. for_each (matchup_body self teamID ?ids i) [i + 1..<n])
               [0..<n - 1] (g1, [])) = None"
  proof (rule for_each_ok)
    fix i s
    assume "i \<in> set [0..<n - 1]"
    show "fst (for_each (matchup_body self teamID ?ids i) [i + 1..<n] s) = None"
      by (rule for_each_ok) (rule matchup_body_ok [OF ids full], simp_all)
  qed
  then obtain st where l2:
    "for_each (\<lambda>i. for_each (matchup_body self teamID ?ids i) [i + 1..<n])
       [0..<n - 1] (g1, []) = (None, st)"
    by (cases "for_each (\<lambda>i. for_each (matchup_body self teamID ?ids i) [i + 1..<n])
               [0..<n - 1] (g1, [])") auto
  show ?thesis using l1 l2 len by (simp add: create_network_def Let_def)
qed

end
